theory Spec2Isabelle
  imports Main
begin

section \<open>JavaScript values\<close>

text \<open>
  The values a parser can hand to the store. An object is an association list from
  property names to values, in insertion order; a JavaScript object has each key at most
  once, which \<open>wf\<close> below states. Numbers are modelled as integers: the store never
  computes with them, it only tests them for truthiness.
\<close>

datatype jsval =
    JUndefined
  | JNull
  | JBool bool
  | JNum int
  | JStr string
  | JArr "jsval list"
  | JObj "(string \<times> jsval) list"

type_synonym fields = "(string \<times> jsval) list"

text \<open>JavaScript truthiness, as used by \<open>if (data)\<close> and \<open>a || b\<close>.\<close>

fun truthy :: "jsval \<Rightarrow> bool" where
  "truthy JUndefined = False"
| "truthy JNull = False"
| "truthy (JBool b) = b"
| "truthy (JNum n) = (n \<noteq> 0)"
| "truthy (JStr s) = (s \<noteq> [])"
| "truthy (JArr xs) = True"
| "truthy (JObj fs) = True"

fun is_obj :: "jsval \<Rightarrow> bool" where
  "is_obj (JObj fs) = True"
| "is_obj v = False"

text \<open>Each object of a value has pairwise distinct keys.\<close>

fun wf :: "jsval \<Rightarrow> bool" where
  "wf (JObj fs) = (distinct (map fst fs) \<and> list_all (\<lambda>kv. wf (snd kv)) fs)"
| "wf (JArr xs) = list_all wf xs"
| "wf v = True"

text \<open>\<open>obj[key] = v\<close>: an existing key keeps its position, a new key goes last.\<close>

fun set_prop :: "string \<Rightarrow> jsval \<Rightarrow> fields \<Rightarrow> fields" where
  "set_prop k v [] = [(k, v)]"
| "set_prop k v ((k', v') # r) =
     (if k = k' then (k, v) # r else (k', v') # set_prop k v r)"

text \<open>
  \<open>x.key\<close> for a value that is neither \<open>null\<close> nor \<open>undefined\<close> (those throw, see
  \<open>getDefaults\<close>): an object's own property or \<open>undefined\<close>; the primitives and arrays
  have no property of the names read here (\<open>name\<close>, \<open>version\<close>).
\<close>

fun get_prop :: "jsval \<Rightarrow> string \<Rightarrow> jsval" where
  "get_prop (JObj fs) k = (case map_of fs k of Some v \<Rightarrow> v | None \<Rightarrow> JUndefined)"
| "get_prop v k = JUndefined"

text \<open>The value at a key path of a value, \<open>None\<close> where the path leaves the objects.\<close>

fun at_path :: "jsval \<Rightarrow> string list \<Rightarrow> jsval option" where
  "at_path v [] = Some v"
| "at_path (JObj fs) (k # ks) =
     (case map_of fs k of Some v \<Rightarrow> at_path v ks | None \<Rightarrow> None)"
| "at_path v (k # ks) = None"

text \<open>
  A key path is absent from a fragment when, walking the fragment's objects along the
  path, a key is missing. (A non-object met before the path ends does not count: it
  replaces what was there.)
\<close>

fun absent_in :: "jsval \<Rightarrow> string list \<Rightarrow> bool" where
  "absent_in (JObj fs) (k # ks) =
     (case map_of fs k of None \<Rightarrow> True | Some v \<Rightarrow> absent_in v ks)"
| "absent_in v ks = False"

section \<open>The deep merge\<close>

text \<open>
  Modelled from the spec: the deep merge of \<open>require('deep-clone-merge')\<close>, a
  dependency whose code is not part of the source tree. The spec's words: key paths in
  the fragment override matching paths in the prior state; object-valued keys merge
  recursively, array and scalar valued keys replace. Values are copied, as the
  dependency's cloning makes them: the result shares no object with the fragment.
\<close>

fun merge_val :: "jsval \<Rightarrow> jsval \<Rightarrow> jsval"
  and merge_fields :: "fields \<Rightarrow> fields \<Rightarrow> fields" where
  "merge_val (JObj d) (JObj s) = JObj (merge_fields d s)"
| "merge_val d s = s"
| "merge_fields d [] = d"
| "merge_fields d ((k, v) # r) =
     merge_fields
       (set_prop k (case map_of d k of Some dv \<Rightarrow> merge_val dv v | None \<Rightarrow> v) d) r"

section \<open>Errors, the file system and the libraries\<close>

text \<open>
  A thrown error: where it was thrown, the \<open>fileName\<close> property (set only by
  \<open>loadFile\<close>'s handler) and the message.
\<close>

datatype errkind = FromParser | FromFs | FromScript | TypeErr

record jserr =
  kind :: errkind
  fileName :: "string option"
  message :: string

text \<open>
  The disk at the moment of a call: no entry (\<open>fs.existsSync\<close> is false), an entry
  that \<open>fs.readFileSync\<close> reads as text, or an entry whose read throws (a directory, a
  file without permission) with the given message.
\<close>

datatype fsentry = Readable string | Unreadable string

type_synonym disk = "string \<Rightarrow> fsentry option"

datatype fsop = ExistsSync string | ReadFileSync string

text \<open>
  The library functions the class calls, taken as parameters: \<open>path.resolve\<close>,
  \<open>path.extname\<close>, \<open>JSON5.parse\<close>, \<open>yaml.load\<close> (a parser returns the message of the
  error it throws, or the parsed value) and \<open>appRootPath.toString()\<close>. Three more
  parameters stand for what the source and the spec leave open: \<open>extend_other\<close> is what
  the merge dependency returns where the spec's words do not reach (see
  \<open>deepMergeExtend\<close>); \<open>vm_run\<close> and \<open>vm_run_array\<close> are the effect of a script run by
  \<open>vm.runInNewContext\<close> on its context object, a plain object or an array: the error the
  script throws, if any, and the properties (the elements) of the context after the run.
\<close>

record env =
  resolve :: "string \<Rightarrow> string \<Rightarrow> string"
  extname :: "string \<Rightarrow> string"
  json5_parse :: "string \<Rightarrow> string + jsval"
  yaml_load :: "string \<Rightarrow> string + jsval"
  app_root_path :: string
  extend_other :: "jsval \<Rightarrow> jsval \<Rightarrow> jsval"
  vm_run :: "string \<Rightarrow> fields \<Rightarrow> jserr option \<times> fields"
  vm_run_array :: "string \<Rightarrow> jsval list \<Rightarrow> jserr option \<times> jsval list"

text \<open>
  Modelled from the spec: \<open>deepMergeExtend\<close>, the entry point \<open>extend(dest, src)\<close> of the
  dependency \<open>deep-clone-merge\<close>, whose code is not part of the source tree. The spec's
  words: an empty fragment merges nothing; for an object merged into an object, key paths
  in the fragment override matching paths in the prior state, as \<open>merge_fields\<close> has it.
  For every other pair of arguments (a fragment that is not a plain object, a non-empty
  object merged into a state that is not an object) the spec says nothing: the result is
  left open, as the parameter \<open>extend_other\<close>.
\<close>

fun deepMergeExtend :: "env \<Rightarrow> jsval \<Rightarrow> jsval \<Rightarrow> jsval" where
  "deepMergeExtend E dest (JObj []) = dest"
| "deepMergeExtend E (JObj d) (JObj s) = JObj (merge_fields d s)"
| "deepMergeExtend E dest src = extend_other E dest src"

section \<open>The Config class\<close>

text \<open>
  The instance: \<open>appRoot\<close>, \<open>fileCache\<close> and \<open>config\<close> (\<open>undefined\<close> until the first
  assignment). The cache is a map from resolved paths: a resolved path is absolute, so it
  never names a property the cache object inherits. \<open>fs_calls\<close> is not a field of the
  class: it records, oldest first, the calls made to \<open>fs\<close>, so that statements about
  disk reads can be made.
\<close>

record store =
  appRoot :: string
  fileCache :: "string \<rightharpoonup> jsval"
  config :: jsval
  fs_calls :: "fsop list"

text \<open>\<open>constructor(appRoot)\<close>: \<open>appRoot || appRootPath.toString()\<close>, an empty cache.\<close>

definition Config_new :: "env \<Rightarrow> string option \<Rightarrow> store" where
  "Config_new E root =
     \<lparr> appRoot = (case root of
                    None \<Rightarrow> app_root_path E
                  | Some r \<Rightarrow> if r \<noteq> [] then r else app_root_path E),
       fileCache = Map.empty,
       config = JUndefined,
       fs_calls = [] \<rparr>"

text \<open>\<open>parseFile(content, ext)\<close>; \<open>ext\<close> is \<open>None\<close> when the argument is omitted.\<close>

definition parseFile :: "env \<Rightarrow> string \<Rightarrow> string option \<Rightarrow> jserr + jsval" where
  "parseFile E content ext =
     (case (if ext = Some ''.yaml'' then yaml_load E content
            else if ext = Some ''.yml'' then yaml_load E content
            else if ext = Some ''.json'' then json5_parse E content
            else if ext = Some ''.json5'' then json5_parse E content
            else json5_parse E content) of
        Inl msg \<Rightarrow> Inl \<lparr> kind = FromParser, fileName = None, message = msg \<rparr>
      | Inr v \<Rightarrow> Inr v)"

text \<open>\<open>fs.readFileSync(path, 'utf8')\<close> on a path that exists.\<close>

definition readFileSync :: "disk \<Rightarrow> string \<Rightarrow> jserr + string" where
  "readFileSync D path =
     (case D path of
        Some (Readable content) \<Rightarrow> Inr content
      | Some (Unreadable msg) \<Rightarrow> Inl \<lparr> kind = FromFs, fileName = None, message = msg \<rparr>
      | None \<Rightarrow> Inl \<lparr> kind = FromFs, fileName = None, message = ''ENOENT'' \<rparr>)"

text \<open>The handler of \<open>loadFile\<close>: it sets \<open>fileName\<close> and prefixes the message.\<close>

definition wrap_err :: "string \<Rightarrow> jserr \<Rightarrow> jserr" where
  "wrap_err path err =
     err \<lparr> fileName := Some path,
           message := ''Error loading config '' @ path @ '': '' @ message err \<rparr>"

definition cache_get :: "store \<Rightarrow> string \<Rightarrow> jsval" where
  "cache_get st path = (case fileCache st path of Some v \<Rightarrow> v | None \<Rightarrow> JUndefined)"

definition log_call :: "fsop \<Rightarrow> store \<Rightarrow> store" where
  "log_call c st = st \<lparr> fs_calls := fs_calls st @ [c] \<rparr>"

definition cache_put :: "string \<Rightarrow> jsval \<Rightarrow> store \<Rightarrow> store" where
  "cache_put path v st = st \<lparr> fileCache := (fileCache st)(path \<mapsto> v) \<rparr>"

definition loadFile :: "env \<Rightarrow> disk \<Rightarrow> store \<Rightarrow> string \<Rightarrow> (jserr + jsval) \<times> store" where
  "loadFile E D st p =
     (let path = resolve E (appRoot st) p; data = cache_get st path in
      if truthy data then (Inr data, st)
      else
        let st1 = log_call (ExistsSync path) st in
        if D path = None then (Inr (JObj []), cache_put path (JObj []) st1)
        else
          let st2 = log_call (ReadFileSync path) st1 in
          (case readFileSync D path of
             Inl err \<Rightarrow> (Inl (wrap_err path err), st2)
           | Inr content \<Rightarrow>
               (case parseFile E content (Some (extname E path)) of
                  Inl err \<Rightarrow> (Inl (wrap_err path err), st2)
                | Inr v \<Rightarrow> (Inr v, cache_put path v st2))))"

definition getPackage :: "env \<Rightarrow> disk \<Rightarrow> store \<Rightarrow> (jserr + jsval) \<times> store" where
  "getPackage E D st = loadFile E D st ''package.json''"

text \<open>\<open>x.key\<close> where \<open>x\<close> may be \<open>null\<close> or \<open>undefined\<close>: those throw a TypeError.\<close>

definition read_prop :: "jsval \<Rightarrow> string \<Rightarrow> jserr + jsval" where
  "read_prop x k =
     (if x = JNull then
        Inl \<lparr> kind = TypeErr, fileName = None,
              message = ''Cannot read properties of null (reading '' @ k @ '')'' \<rparr>
      else if x = JUndefined then
        Inl \<lparr> kind = TypeErr, fileName = None,
              message = ''Cannot read properties of undefined (reading '' @ k @ '')'' \<rparr>
      else Inr (get_prop x k))"

definition getDefaults :: "env \<Rightarrow> disk \<Rightarrow> store \<Rightarrow> (jserr + jsval) \<times> store" where
  "getDefaults E D st =
     (case getPackage E D st of
        (Inl e, st1) \<Rightarrow> (Inl e, st1)
      | (Inr p1, st1) \<Rightarrow>
          (case read_prop p1 ''name'' of
             Inl e \<Rightarrow> (Inl e, st1)
           | Inr n \<Rightarrow>
               (case getPackage E D st1 of
                  (Inl e, st2) \<Rightarrow> (Inl e, st2)
                | (Inr p2, st2) \<Rightarrow>
                    (case read_prop p2 ''version'' of
                       Inl e \<Rightarrow> (Inl e, st2)
                     | Inr v \<Rightarrow>
                         (Inr (JObj [(''APP_NAME'', n), (''APP_VERSION'', v),
                                     (''APP_ROOT'', JStr (appRoot st2))]), st2)))))"

text \<open>\<open>toJSON()\<close>: \<open>this.config || this.getDefaults()\<close>.\<close>

definition toJSON :: "env \<Rightarrow> disk \<Rightarrow> store \<Rightarrow> (jserr + jsval) \<times> store" where
  "toJSON E D st =
     (if truthy (config st) then (Inr (config st), st) else getDefaults E D st)"

text \<open>
  \<open>addConfig(config)\<close>: \<open>this.config = deepMergeExtend(this.toJSON(), config)\<close>. The
  methods that return \<open>this\<close> return the updated store; when they throw, the store is
  the one the throw leaves behind.
\<close>

definition addConfig :: "env \<Rightarrow> disk \<Rightarrow> store \<Rightarrow> jsval \<Rightarrow> (jserr + unit) \<times> store" where
  "addConfig E D st c =
     (case toJSON E D st of
        (Inl e, st1) \<Rightarrow> (Inl e, st1)
      | (Inr cur, st1) \<Rightarrow> (Inr (), st1 \<lparr> config := deepMergeExtend E cur c \<rparr>))"

definition addFile :: "env \<Rightarrow> disk \<Rightarrow> store \<Rightarrow> string \<Rightarrow> (jserr + unit) \<times> store" where
  "addFile E D st p =
     (case loadFile E D st p of
        (Inl e, st1) \<Rightarrow> (Inl e, st1)
      | (Inr c, st1) \<Rightarrow> addConfig E D st1 c)"

text \<open>\<open>addString(str)\<close>: \<open>this.parseFile(str)\<close>, with no second argument.\<close>

definition addString :: "env \<Rightarrow> disk \<Rightarrow> store \<Rightarrow> string \<Rightarrow> (jserr + unit) \<times> store" where
  "addString E D st str =
     (case parseFile E str None of
        Inl e \<Rightarrow> (Inl e, st)
      | Inr c \<Rightarrow> addConfig E D st c)"

text \<open>
  \<open>addScript(str)\<close>: \<open>this.config = this.toJSON()\<close>, then
  \<open>vm.runInNewContext(str, this.config)\<close>. The script works on the object that \<open>config\<close>
  now is, which stays that object whatever the script does and also when it throws. A
  context that is not an object (a truthy primitive) is refused with a TypeError before
  anything runs.
\<close>

definition runInNewContext :: "env \<Rightarrow> string \<Rightarrow> jsval \<Rightarrow> jserr option \<times> jsval" where
  "runInNewContext E str ctx =
     (case ctx of
        JObj fs \<Rightarrow> (case vm_run E str fs of (r, fs') \<Rightarrow> (r, JObj fs'))
      | JArr xs \<Rightarrow> (case vm_run_array E str xs of (r, xs') \<Rightarrow> (r, JArr xs'))
      | _ \<Rightarrow>
          (Some \<lparr> kind = TypeErr, fileName = None,
                  message = ''The contextObject argument must be of type object'' \<rparr>, ctx))"

definition addScript :: "env \<Rightarrow> disk \<Rightarrow> store \<Rightarrow> string \<Rightarrow> (jserr + unit) \<times> store" where
  "addScript E D st str =
     (case toJSON E D st of
        (Inl e, st1) \<Rightarrow> (Inl e, st1)
      | (Inr cur, st1) \<Rightarrow>
          (case runInNewContext E str cur of
             (Some e, cur') \<Rightarrow> (Inl e, st1 \<lparr> config := cur' \<rparr>)
           | (None, cur') \<Rightarrow> (Inr (), st1 \<lparr> config := cur' \<rparr>)))"

text \<open>
  \<open>addString(content, formatHint)\<close> as the spec words it: the same dispatch as file
  parsing, the format chosen by the hint. Used only to compare with \<open>addString\<close>.
\<close>

definition addString_spec ::
  "env \<Rightarrow> disk \<Rightarrow> store \<Rightarrow> string \<Rightarrow> string option \<Rightarrow> (jserr + unit) \<times> store" where
  "addString_spec E D st content hint =
     (case parseFile E content hint of
        Inl e \<Rightarrow> (Inl e, st)
      | Inr c \<Rightarrow> addConfig E D st c)"

section \<open>A concrete environment\<close>

text \<open>
  Concrete library functions for the closed instances below: \<open>resolve0\<close> keeps an
  absolute path and puts the root before a relative one, \<open>extname0\<close> is the part of the
  last path segment from its last dot (empty when there is none or when the segment starts
  with it), and the two parsers are the real parsers restricted to the few strings used
  here (every other string is answered with an error). \<open>vm_0\<close> knows the script of the
  source's own example, and \<open>extend_other0\<close> replaces the state by the later source.
\<close>

definition resolve0 :: "string \<Rightarrow> string \<Rightarrow> string" where
  "resolve0 root p = (if p \<noteq> [] \<and> hd p = CHR ''/'' then p else root @ ''/'' @ p)"

definition extname0 :: "string \<Rightarrow> string" where
  "extname0 p =
     (let b = rev (takeWhile (\<lambda>c. c \<noteq> CHR ''/'') (rev p));
          r = takeWhile (\<lambda>c. c \<noteq> CHR ''.'') (rev b)
      in if length r = length b \<or> Suc (length r) = length b then []
         else CHR ''.'' # rev r)"

definition json5_0 :: "string \<Rightarrow> string + jsval" where
  "json5_0 s =
     (if s = ''{}'' then Inr (JObj [])
      else if s = ''null'' then Inr JNull
      else if s = ''{a: 1}'' then Inr (JObj [(''a'', JNum 1)])
      else if s = ''{\"a\": 1}'' then Inr (JObj [(''a'', JNum 1)])
      else if s = ''{name: \"app\", version: \"1.0.0\"}''
        then Inr (JObj [(''name'', JStr ''app''), (''version'', JStr ''1.0.0'')])
      else Inl ''JSON5: invalid character'')"

definition yaml_0 :: "string \<Rightarrow> string + jsval" where
  "yaml_0 s =
     (if s = [] then Inr JUndefined
      else if s = ''a: 1'' then Inr (JObj [(''a'', JNum 1)])
      else if s = ''a: 2'' then Inr (JObj [(''a'', JNum 2)])
      else Inl ''YAMLException'')"

definition vm_0 :: "string \<Rightarrow> fields \<Rightarrow> jserr option \<times> fields" where
  "vm_0 str fs =
     (if str = ''port = 8080; debug = true;''
      then (None, set_prop ''debug'' (JBool True) (set_prop ''port'' (JNum 8080) fs))
      else (Some \<lparr> kind = FromScript, fileName = None, message = ''SyntaxError'' \<rparr>, fs))"

definition vm_array_0 :: "string \<Rightarrow> jsval list \<Rightarrow> jserr option \<times> jsval list" where
  "vm_array_0 str xs =
     (Some \<lparr> kind = FromScript, fileName = None, message = ''SyntaxError'' \<rparr>, xs)"

definition extend_other0 :: "jsval \<Rightarrow> jsval \<Rightarrow> jsval" where
  "extend_other0 dest src = src"

definition E0 :: env where
  "E0 = \<lparr> resolve = resolve0, extname = extname0, json5_parse = json5_0,
          yaml_load = yaml_0, app_root_path = ''/srv'', extend_other = extend_other0,
          vm_run = vm_0, vm_run_array = vm_array_0 \<rparr>"

text \<open>A disk that holds a package metadata file and nothing else.\<close>

definition D_pkg :: disk where
  "D_pkg = [''/app/package.json'' \<mapsto> Readable ''{name: \"app\", version: \"1.0.0\"}'']"

text \<open>A disk with one malformed JSON file, and a disk whose package metadata is malformed.\<close>

definition D_bad :: disk where
  "D_bad = [''/app/bad.json'' \<mapsto> Readable ''{a: 1'']"

definition D_badpkg :: disk where
  "D_badpkg = [''/app/package.json'' \<mapsto> Readable ''{name: '']"

text \<open>The disk \<open>D_pkg\<close> after a file \<open>late.json\<close> was created.\<close>

definition D_late :: disk where
  "D_late = D_pkg(''/app/late.json'' \<mapsto> Readable ''{a: 1}'')"

section \<open>Sequences of calls\<close>

text \<open>
  The methods of the class as calls, each made at the disk of its moment.
  \<open>do_call\<close> gives the error thrown, if any, and the store the call leaves behind;
  \<open>run\<close> makes the calls in order, going on after a call that threw (its caller caught
  the error).
\<close>

datatype call =
    LoadFile string
  | GetPackage
  | GetDefaults
  | ToJSON
  | AddConfig jsval
  | AddFile string
  | AddString string
  | AddScript string

definition outcome :: "(jserr + 'a) \<times> store \<Rightarrow> jserr option \<times> store" where
  "outcome r = (case r of (Inl e, s) \<Rightarrow> (Some e, s) | (Inr v, s) \<Rightarrow> (None, s))"

fun do_call :: "env \<Rightarrow> disk \<Rightarrow> store \<Rightarrow> call \<Rightarrow> jserr option \<times> store" where
  "do_call E D st (LoadFile p) = outcome (loadFile E D st p)"
| "do_call E D st GetPackage = outcome (getPackage E D st)"
| "do_call E D st GetDefaults = outcome (getDefaults E D st)"
| "do_call E D st ToJSON = outcome (toJSON E D st)"
| "do_call E D st (AddConfig c) = outcome (addConfig E D st c)"
| "do_call E D st (AddFile p) = outcome (addFile E D st p)"
| "do_call E D st (AddString s) = outcome (addString E D st s)"
| "do_call E D st (AddScript s) = outcome (addScript E D st s)"

fun run :: "env \<Rightarrow> store \<Rightarrow> (disk \<times> call) list \<Rightarrow> store" where
  "run E st [] = st"
| "run E st ((D, c) # cs) = run E (snd (do_call E D st c)) cs"

text \<open>
  What every call keeps of a store: the root, and each cache entry that is truthy.
\<close>

definition cache_grows :: "store \<Rightarrow> store \<Rightarrow> bool" where
  "cache_grows st st' \<longleftrightarrow>
     appRoot st' = appRoot st
     \<and> (\<forall>q. truthy (cache_get st q) \<longrightarrow> cache_get st' q = cache_get st q)"

text \<open>
  What \<open>loadFile\<close> returns for a resolved path, as a function of the cache entry and the
  disk, and the defaults as a function of what loading the package metadata returns.
  Both are used to state that a value does not depend on the rest of the store.
\<close>

definition load_value :: "env \<Rightarrow> disk \<Rightarrow> store \<Rightarrow> string \<Rightarrow> jserr + jsval" where
  "load_value E D st q =
     (if truthy (cache_get st q) then Inr (cache_get st q)
      else if D q = None then Inr (JObj [])
      else
        (case readFileSync D q of
           Inl err \<Rightarrow> Inl (wrap_err q err)
         | Inr content \<Rightarrow>
             (case parseFile E content (Some (extname E q)) of
                Inl err \<Rightarrow> Inl (wrap_err q err)
              | Inr v \<Rightarrow> Inr v)))"

definition defaults_of :: "jserr + jsval \<Rightarrow> string \<Rightarrow> jserr + jsval" where
  "defaults_of r root =
     (case r of
        Inl e \<Rightarrow> Inl e
      | Inr pkg \<Rightarrow>
          (case read_prop pkg ''name'' of
             Inl e \<Rightarrow> Inl e
           | Inr n \<Rightarrow>
               (case read_prop pkg ''version'' of
                  Inl e \<Rightarrow> Inl e
                | Inr v \<Rightarrow>
                    Inr (JObj [(''APP_NAME'', n), (''APP_VERSION'', v),
                               (''APP_ROOT'', JStr root)]))))"

text \<open>
  The fragment a merging call hands to \<open>addConfig\<close> (\<open>None\<close> for the other calls, and when
  loading or parsing throws), the fragments that are objects without the keys of the
  defaults, and a sequence of \<open>addConfig\<close>, \<open>addFile\<close> and \<open>addString\<close> calls that all
  return and whose fragments are such objects.
\<close>

fun fragment :: "env \<Rightarrow> disk \<Rightarrow> store \<Rightarrow> call \<Rightarrow> jsval option" where
  "fragment E D st (AddConfig c) = Some c"
| "fragment E D st (AddFile p) =
     (case fst (loadFile E D st p) of Inl e \<Rightarrow> None | Inr c \<Rightarrow> Some c)"
| "fragment E D st (AddString s) =
     (case parseFile E s None of Inl e \<Rightarrow> None | Inr c \<Rightarrow> Some c)"
| "fragment E D st c = None"

definition default_keys :: "string list" where
  "default_keys = [''APP_NAME'', ''APP_VERSION'', ''APP_ROOT'']"

fun lacks_default_keys :: "jsval \<Rightarrow> bool" where
  "lacks_default_keys (JObj fs) = list_all (\<lambda>k. k \<notin> set (map fst fs)) default_keys"
| "lacks_default_keys v = False"

fun adds_ok :: "env \<Rightarrow> store \<Rightarrow> (disk \<times> call) list \<Rightarrow> bool" where
  "adds_ok E st [] = True"
| "adds_ok E st ((D, c) # cs) =
     (case fragment E D st c of
        None \<Rightarrow> False
      | Some f \<Rightarrow>
          lacks_default_keys f \<and> fst (do_call E D st c) = None
          \<and> adds_ok E (snd (do_call E D st c)) cs)"

text \<open>
  A disk with the same data as YAML and as JSON, and the disk as it was before, when the
  YAML file held another value.
\<close>

definition D_both :: disk where
  "D_both = [''/app/a.yaml'' \<mapsto> Readable ''a: 1'', ''/app/a.json'' \<mapsto> Readable ''{\"a\": 1}'']"

definition D_before :: disk where
  "D_before = [''/app/a.yaml'' \<mapsto> Readable ''a: 2'', ''/app/a.json'' \<mapsto> Readable ''{\"a\": 1}'']"

section \<open>Properties\<close>

lemmas store_defs =
  addString_def addString_spec_def addFile_def addConfig_def toJSON_def getDefaults_def
  getPackage_def loadFile_def parseFile_def readFileSync_def wrap_err_def read_prop_def
  cache_get_def log_call_def cache_put_def Config_new_def Let_def addScript_def
  runInNewContext_def

lemmas env0_defs =
  E0_def resolve0_def extname0_def json5_0_def yaml_0_def vm_0_def vm_array_0_def
  extend_other0_def

subsection \<open>addString\<close>

text \<open>
  C5, as the code has it: \<open>addString\<close> takes the string only and calls \<open>parseFile\<close>
  without an extension, so the string is always parsed by the relaxed-JSON parser (a
  parser error is thrown as it is, the store untouched) and the parsed fragment is merged
  by \<open>addConfig\<close>. This is what the spec's hinted operation does for an absent hint and
  for the JSON-family hints.
\<close>

theorem addString_relaxed_json:
  "addString E D st s =
     (case json5_parse E s of
        Inl msg \<Rightarrow> (Inl \<lparr> kind = FromParser, fileName = None, message = msg \<rparr>, st)
      | Inr c \<Rightarrow> addConfig E D st c)
   \<and> addString E D st s = addString_spec E D st s None
   \<and> addString E D st s = addString_spec E D st s (Some ''.json'')
   \<and> addString E D st s = addString_spec E D st s (Some ''.json5'')"
  by (simp add: addString_def addString_spec_def parseFile_def split: sum.splits)

text \<open>
  C5 as stated fails: with a YAML hint the spec's operation parses \<open>a: 1\<close> as YAML and
  merges it, the code's \<open>addString\<close> hands it to the relaxed-JSON parser, which throws.
\<close>

theorem addString_yaml_hint_counterexample:
  "addString E0 Map.empty (Config_new E0 (Some ''/app'')) ''a: 1''
     \<noteq> addString_spec E0 Map.empty (Config_new E0 (Some ''/app'')) ''a: 1'' (Some ''.yaml'')"
  by (simp add: store_defs env0_defs)

subsection \<open>loadFile and the cache\<close>

lemma loadFile_cached:
  "truthy (cache_get st (resolve E (appRoot st) p)) \<Longrightarrow>
   loadFile E D st p = (Inr (cache_get st (resolve E (appRoot st) p)), st)"
  by (simp add: loadFile_def Let_def)

lemma loadFile_missing:
  "\<not> truthy (cache_get st (resolve E (appRoot st) p)) \<Longrightarrow>
   D (resolve E (appRoot st) p) = None \<Longrightarrow>
   loadFile E D st p =
     (Inr (JObj []), cache_put (resolve E (appRoot st) p) (JObj [])
                        (log_call (ExistsSync (resolve E (appRoot st) p)) st))"
  by (simp add: loadFile_def Let_def)

lemma loadFile_appRoot [simp]: "appRoot (snd (loadFile E D st p)) = appRoot st"
  by (simp add: loadFile_def Let_def cache_put_def log_call_def split: sum.splits)

lemma loadFile_config [simp]: "config (snd (loadFile E D st p)) = config st"
  by (simp add: loadFile_def Let_def cache_put_def log_call_def split: sum.splits)

lemma loadFile_keeps_truthy:
  "truthy (cache_get st q) \<Longrightarrow> cache_get (snd (loadFile E D st p)) q = cache_get st q"
  by (auto simp add: loadFile_def Let_def cache_put_def log_call_def cache_get_def
      split: sum.splits)

lemma loadFile_result_cached:
  "loadFile E D st p = (Inr v, st') \<Longrightarrow> truthy v \<Longrightarrow>
   cache_get st' (resolve E (appRoot st) p) = v"
  by (auto simp add: loadFile_def Let_def cache_put_def log_call_def cache_get_def
      split: sum.splits if_splits)


text \<open>
  C2 at a failing input: an empty YAML file parses to \<open>undefined\<close>. The value is stored
  in the cache, but \<open>if (data) return data\<close> tests it for truthiness, so the second
  \<open>loadFile\<close> of the same path looks at the disk and reads and parses the file again.
\<close>

theorem loadFile_falsy_reread:
  "fs_calls (snd (loadFile E0 [''/app/empty.yaml'' \<mapsto> Readable []]
       (snd (loadFile E0 [''/app/empty.yaml'' \<mapsto> Readable []]
              (Config_new E0 (Some ''/app'')) ''empty.yaml'')) ''empty.yaml''))
   = [ExistsSync ''/app/empty.yaml'', ReadFileSync ''/app/empty.yaml'',
      ExistsSync ''/app/empty.yaml'', ReadFileSync ''/app/empty.yaml'']"
  by (simp add: store_defs env0_defs)

text \<open>
  C7 at the same failing input: the second \<open>addFile\<close> of the empty YAML file reads the
  disk again (the call between the two reads is the lookup of \<open>package.json\<close> that
  seeds the defaults), whatever the merge dependency makes of the \<open>undefined\<close> fragment
  (\<open>f\<close>).
\<close>

theorem addFile_falsy_reread:
  "fs_calls (snd (addFile (E0\<lparr>extend_other := f\<rparr>) [''/app/empty.yaml'' \<mapsto> Readable []]
       (snd (addFile (E0\<lparr>extend_other := f\<rparr>) [''/app/empty.yaml'' \<mapsto> Readable []]
              (Config_new (E0\<lparr>extend_other := f\<rparr>) (Some ''/app'')) ''empty.yaml''))
       ''empty.yaml''))
   = [ExistsSync ''/app/empty.yaml'', ReadFileSync ''/app/empty.yaml'',
      ExistsSync ''/app/package.json'',
      ExistsSync ''/app/empty.yaml'', ReadFileSync ''/app/empty.yaml'']"
  by (simp add: store_defs env0_defs)

subsection \<open>The snapshot\<close>

lemma is_obj_truthy: "is_obj v \<Longrightarrow> truthy v"
  by (cases v) auto

lemma deepMergeExtend_objs:
  "is_obj d \<Longrightarrow> is_obj s \<Longrightarrow>
   deepMergeExtend E d s = merge_val d s \<and> is_obj (deepMergeExtend E d s)"
proof -
  assume "is_obj d" and "is_obj s"
  then obtain df sf where d: "d = JObj df" and s: "s = JObj sf"
    by (cases d; cases s) auto
  show ?thesis unfolding d s by (cases sf) auto
qed

lemma deepMergeExtend_is_obj:
  "is_obj d \<Longrightarrow> is_obj s \<Longrightarrow> is_obj (deepMergeExtend E d s)"
  using deepMergeExtend_objs by blast

lemma toJSON_truthy: "toJSON E D st = (Inr cur, st1) \<Longrightarrow> truthy cur"
  by (auto simp add: toJSON_def getDefaults_def split: if_splits sum.splits prod.splits)

lemma toJSON_set: "truthy (config st) \<Longrightarrow> toJSON E D st = (Inr (config st), st)"
  by (simp add: toJSON_def)

lemma getDefaults_shape:
  "getDefaults E D st = (Inr d, s) \<Longrightarrow>
   \<exists>n v. d = JObj [(''APP_NAME'', n), (''APP_VERSION'', v), (''APP_ROOT'', JStr (appRoot st))]"
proof -
  assume a: "getDefaults E D st = (Inr d, s)"
  obtain r1 s1 where l1: "loadFile E D st ''package.json'' = (r1, s1)" by fastforce
  obtain r2 s2 where l2: "loadFile E D s1 ''package.json'' = (r2, s2)" by fastforce
  have "appRoot s2 = appRoot st" using l1 l2 by (metis loadFile_appRoot snd_conv)
  then show ?thesis using a l1 l2
    by (auto simp add: getDefaults_def getPackage_def split: sum.splits)
qed

lemma toJSON_obj:
  "config st = JUndefined \<or> is_obj (config st) \<Longrightarrow> toJSON E D st = (Inr cur, s) \<Longrightarrow> is_obj cur"
  by (auto simp add: toJSON_def split: if_splits dest: getDefaults_shape)

lemma addConfig_result:
  "addConfig E D st c = (Inr (), st') \<Longrightarrow>
   \<exists>cur s. toJSON E D st = (Inr cur, s) \<and> config st' = deepMergeExtend E cur c"
  by (cases "toJSON E D st") (auto simp add: addConfig_def split: sum.splits)









subsection \<open>addFile on malformed and missing files\<close>

text \<open>
  C4, as the code has it: when the resolved path has no truthy cache entry (the call
  reaches the disk), the
  file exists and is readable, and the parser chosen by its extension throws with message
  \<open>msg\<close>, then \<open>addFile\<close> throws an error whose \<open>fileName\<close> is the resolved path and whose
  message is \<open>Error loading config <path>: <msg>\<close>; \<open>config\<close>, \<open>fileCache\<close> and
  \<open>appRoot\<close> are as before the call (nothing was cached); and a later \<open>loadFile\<close> of the
  same path, on any disk where the file is readable, tests and reads the disk again and
  returns what parsing the content found then gives.
\<close>

theorem addFile_malformed:
  assumes "\<not> truthy (cache_get st (resolve E (appRoot st) p))"
    and "D (resolve E (appRoot st) p) = Some (Readable content)"
    and "parseFile E content (Some (extname E (resolve E (appRoot st) p)))
           = Inl \<lparr> kind = FromParser, fileName = None, message = msg \<rparr>"
  shows "\<exists>e st'. addFile E D st p = (Inl e, st')
     \<and> fileName e = Some (resolve E (appRoot st) p)
     \<and> message e = ''Error loading config '' @ resolve E (appRoot st) p @ '': '' @ msg
     \<and> config st' = config st \<and> fileCache st' = fileCache st \<and> appRoot st' = appRoot st
     \<and> fs_calls st' = fs_calls st @ [ExistsSync (resolve E (appRoot st) p),
                                       ReadFileSync (resolve E (appRoot st) p)]
     \<and> (\<forall>D' content'. D' (resolve E (appRoot st) p) = Some (Readable content') \<longrightarrow>
          fst (loadFile E D' st' p)
            = (case parseFile E content' (Some (extname E (resolve E (appRoot st) p))) of
                 Inl e' \<Rightarrow> Inl (wrap_err (resolve E (appRoot st) p) e')
               | Inr v \<Rightarrow> Inr v)
          \<and> fs_calls (snd (loadFile E D' st' p))
            = fs_calls st' @ [ExistsSync (resolve E (appRoot st) p),
                              ReadFileSync (resolve E (appRoot st) p)])"
  using assms
  by (auto simp add: addFile_def loadFile_def Let_def readFileSync_def wrap_err_def
      cache_get_def log_call_def cache_put_def split: sum.splits)

theorem addFile_malformed_witness:
  "\<exists>e st'. addFile E0 D_bad (Config_new E0 (Some ''/app'')) ''bad.json'' = (Inl e, st')
     \<and> fileName e = Some ''/app/bad.json''
     \<and> message e = ''Error loading config /app/bad.json: JSON5: invalid character''
     \<and> config st' = JUndefined
     \<and> fs_calls st' = [ExistsSync ''/app/bad.json'', ReadFileSync ''/app/bad.json'']"
proof -
  let ?st0 = "Config_new E0 (Some ''/app'')"
  have h1: "\<not> truthy (cache_get ?st0 (resolve E0 (appRoot ?st0) ''bad.json''))"
    by (simp add: store_defs env0_defs)
  have h2: "D_bad (resolve E0 (appRoot ?st0) ''bad.json'') = Some (Readable ''{a: 1'')"
    by (simp add: store_defs env0_defs D_bad_def)
  have h3: "parseFile E0 ''{a: 1'' (Some (extname E0 (resolve E0 (appRoot ?st0) ''bad.json'')))
              = Inl \<lparr> kind = FromParser, fileName = None,
                      message = ''JSON5: invalid character'' \<rparr>"
    by (simp add: store_defs env0_defs)
  have r: "resolve E0 (appRoot ?st0) ''bad.json'' = ''/app/bad.json''"
    by (simp add: store_defs env0_defs)
  have c: "config ?st0 = JUndefined" "fs_calls ?st0 = []"
    by (simp_all add: Config_new_def)
  from h1 h2 h3
    addFile_malformed [where st = ?st0 and E = E0 and p = "''bad.json''" and D = D_bad
      and content = "''{a: 1''" and msg = "''JSON5: invalid character''"]
  obtain e st' where
    "addFile E0 D_bad ?st0 ''bad.json'' = (Inl e, st')"
    "fileName e = Some (resolve E0 (appRoot ?st0) ''bad.json'')"
    "message e = ''Error loading config '' @ resolve E0 (appRoot ?st0) ''bad.json'' @ '': ''
                   @ ''JSON5: invalid character''"
    "config st' = config ?st0"
    "fs_calls st' = fs_calls ?st0 @ [ExistsSync (resolve E0 (appRoot ?st0) ''bad.json''),
                                     ReadFileSync (resolve E0 (appRoot ?st0) ''bad.json'')]"
    by blast
  then show ?thesis unfolding r c by (intro exI conjI) simp_all
qed

text \<open>
  C4 as stated fails: a path looked up while it had no file is cached as the empty
  object; a malformed file created there afterwards is never read, and \<open>addFile\<close>
  returns.
\<close>

theorem addFile_malformed_counterexample:
  "D_bad ''/app/bad.json'' = Some (Readable ''{a: 1'')
   \<and> parseFile E0 ''{a: 1'' (Some (extname E0 ''/app/bad.json''))
       = Inl \<lparr> kind = FromParser, fileName = None, message = ''JSON5: invalid character'' \<rparr>
   \<and> fst (addFile E0 D_bad
            (snd (loadFile E0 Map.empty (Config_new E0 (Some ''/app'')) ''bad.json''))
            ''bad.json'') = Inr ()"
  by (simp add: store_defs env0_defs D_bad_def)

lemma deepMergeExtend_empty: "deepMergeExtend E cur (JObj []) = cur"
  by simp

lemma loadFile_cong:
  assumes "appRoot st = appRoot st'"
    and "cache_get st (resolve E (appRoot st) p) = cache_get st' (resolve E (appRoot st) p)"
  shows "fst (loadFile E D st p) = fst (loadFile E D st' p)
     \<and> cache_get (snd (loadFile E D st p)) (resolve E (appRoot st) p)
        = cache_get (snd (loadFile E D st' p)) (resolve E (appRoot st) p)"
  using assms
  by (auto simp add: loadFile_def Let_def cache_put_def log_call_def cache_get_def
      split: sum.splits)

lemma getDefaults_cong:
  assumes a: "appRoot st = appRoot st'"
    and c: "cache_get st (resolve E (appRoot st) ''package.json'')
          = cache_get st' (resolve E (appRoot st) ''package.json'')"
  shows "fst (getDefaults E D st) = fst (getDefaults E D st')"
proof -
  obtain r1 s1 where l1: "loadFile E D st ''package.json'' = (r1, s1)" by fastforce
  obtain r1' s1' where l1b: "loadFile E D st' ''package.json'' = (r1', s1')" by fastforce
  from loadFile_cong [OF a c, of D] l1 l1b
  have r1: "r1' = r1"
    and c1: "cache_get s1 (resolve E (appRoot st) ''package.json'')
          = cache_get s1' (resolve E (appRoot st) ''package.json'')" by auto
  have a1: "appRoot s1 = appRoot st" "appRoot s1' = appRoot st"
    using l1 l1b a by (metis loadFile_appRoot snd_conv)+
  obtain r2 s2 where l2: "loadFile E D s1 ''package.json'' = (r2, s2)" by fastforce
  obtain r2' s2' where l2b: "loadFile E D s1' ''package.json'' = (r2', s2')" by fastforce
  from loadFile_cong [of s1 s1' E "''package.json''" D] a1 c1 l2 l2b
  have r2: "r2' = r2" by auto
  have a2: "appRoot s2 = appRoot st" "appRoot s2' = appRoot st"
    using l2 l2b a1 by (metis loadFile_appRoot snd_conv)+
  show ?thesis
    using l1 l1b l2 l2b r1 r2 a2
    by (simp add: getDefaults_def getPackage_def split: sum.splits)
qed

lemma getDefaults_after_sentinel:
  assumes "\<not> truthy (cache_get st q)" "D q = None"
  shows "fst (getDefaults E D (cache_put q (JObj []) (log_call (ExistsSync q) st)))
       = fst (getDefaults E D st)"
proof (cases "q = resolve E (appRoot st) ''package.json''")
  case False
  then show ?thesis
    by (intro getDefaults_cong) (auto simp: cache_put_def log_call_def cache_get_def)
next
  case True
  then show ?thesis using assms
    by (simp add: getDefaults_def getPackage_def loadFile_def Let_def cache_put_def
        log_call_def cache_get_def read_prop_def)
qed

text \<open>
  C3, as the code has it: when the resolved path has no file on the disk and no truthy
  cache entry, and the snapshot can be taken before the call (\<open>toJSON\<close> returns \<open>cur\<close>:
  the accumulated state is set, or the defaults can be derived), \<open>addFile\<close> returns
  without throwing, and the snapshot after it, on any disk, is \<open>cur\<close> again.
\<close>

theorem addFile_missing:
  assumes "\<not> truthy (cache_get st (resolve E (appRoot st) p))"
    and "D (resolve E (appRoot st) p) = None"
    and "fst (toJSON E D st) = Inr cur"
  shows "\<exists>st'. addFile E D st p = (Inr (), st') \<and> fst (toJSON E D' st') = Inr cur
           \<and> config st' = cur"
proof -
  let ?q = "resolve E (appRoot st) p"
  let ?st1 = "cache_put ?q (JObj []) (log_call (ExistsSync ?q) st)"
  have l: "loadFile E D st p = (Inr (JObj []), ?st1)"
    using assms(1,2) by (rule loadFile_missing)
  have "fst (toJSON E D ?st1) = fst (toJSON E D st)"
    using getDefaults_after_sentinel [of st ?q D E] assms(1,2)
    by (simp add: toJSON_def cache_put_def log_call_def)
  then have t: "fst (toJSON E D ?st1) = Inr cur" using assms(3) by simp
  then obtain st2 where t2: "toJSON E D ?st1 = (Inr cur, st2)" by (cases "toJSON E D ?st1") auto
  then have tr: "truthy cur" by (rule toJSON_truthy)
  have "addFile E D st p = (Inr (), st2\<lparr>config := cur\<rparr>)"
    using l t2 by (simp add: addFile_def addConfig_def)
  moreover have "fst (toJSON E D' (st2\<lparr>config := cur\<rparr>)) = Inr cur"
    using tr by (simp add: toJSON_def)
  ultimately show ?thesis by auto
qed

theorem addFile_missing_witness:
  "\<exists>st'. addFile E0 D_pkg (Config_new E0 (Some ''/app'')) ''does-not-exist.json'' = (Inr (), st')
     \<and> fst (toJSON E0 Map.empty st')
         = Inr (JObj [(''APP_NAME'', JStr ''app''), (''APP_VERSION'', JStr ''1.0.0''),
                      (''APP_ROOT'', JStr ''/app'')])
     \<and> config st' = JObj [(''APP_NAME'', JStr ''app''), (''APP_VERSION'', JStr ''1.0.0''),
                           (''APP_ROOT'', JStr ''/app'')]"
proof -
  let ?st0 = "Config_new E0 (Some ''/app'')"
  have h1: "\<not> truthy (cache_get ?st0 (resolve E0 (appRoot ?st0) ''does-not-exist.json''))"
    by (simp add: store_defs env0_defs)
  have h2: "D_pkg (resolve E0 (appRoot ?st0) ''does-not-exist.json'') = None"
    by (simp add: store_defs env0_defs D_pkg_def)
  have h3: "fst (toJSON E0 D_pkg ?st0)
              = Inr (JObj [(''APP_NAME'', JStr ''app''), (''APP_VERSION'', JStr ''1.0.0''),
                           (''APP_ROOT'', JStr ''/app'')])"
    by (simp add: store_defs env0_defs D_pkg_def)
  show ?thesis
    using h1 h2 h3
      addFile_missing [where st = ?st0 and E = E0 and p = "''does-not-exist.json''"
        and D = D_pkg and D' = Map.empty
        and cur = "JObj [(''APP_NAME'', JStr ''app''), (''APP_VERSION'', JStr ''1.0.0''),
                         (''APP_ROOT'', JStr ''/app'')]"]
    by blast
qed

text \<open>
  C3 as stated fails: on a fresh store the first merging call derives the defaults from
  \<open>package.json\<close>; when that file is malformed, \<open>addFile\<close> of a path with no file throws
  the loading error of \<open>package.json\<close>.
\<close>

theorem addFile_missing_counterexample:
  "D_badpkg (resolve E0 (appRoot (Config_new E0 (Some ''/app''))) ''does-not-exist.json'') = None
   \<and> fst (addFile E0 D_badpkg (Config_new E0 (Some ''/app'')) ''does-not-exist.json'')
       = Inl \<lparr> kind = FromParser, fileName = Some ''/app/package.json'',
               message = ''Error loading config /app/package.json: JSON5: invalid character'' \<rparr>"
  by (simp add: store_defs env0_defs D_badpkg_def)

subsection \<open>What the calls keep of the cache\<close>

lemma cache_grows_refl [simp]: "cache_grows st st"
  by (simp add: cache_grows_def)

lemma cache_grows_trans: "cache_grows a b \<Longrightarrow> cache_grows b c \<Longrightarrow> cache_grows a c"
  by (auto simp add: cache_grows_def)

lemma cache_grows_config [simp]: "cache_grows st (st'\<lparr>config := c\<rparr>) = cache_grows st st'"
  by (simp add: cache_grows_def cache_get_def)

lemma loadFile_grows: "cache_grows st (snd (loadFile E D st p))"
  by (simp add: cache_grows_def loadFile_keeps_truthy)

lemma getDefaults_grows: "cache_grows st (snd (getDefaults E D st))"
proof -
  obtain r1 s1 where l1: "loadFile E D st ''package.json'' = (r1, s1)" by fastforce
  obtain r2 s2 where l2: "loadFile E D s1 ''package.json'' = (r2, s2)" by fastforce
  have g1: "cache_grows st s1" using loadFile_grows [of st E D "''package.json''"] l1 by simp
  have g2: "cache_grows s1 s2" using loadFile_grows [of s1 E D "''package.json''"] l2 by simp
  have g3: "cache_grows st s2" using g1 g2 by (rule cache_grows_trans)
  show ?thesis
    using l1 l2 g1 g3 by (simp add: getDefaults_def getPackage_def split: sum.splits)
qed

lemma toJSON_grows: "cache_grows st (snd (toJSON E D st))"
  by (simp add: toJSON_def getDefaults_grows)

lemma addConfig_grows: "cache_grows st (snd (addConfig E D st c))"
  using toJSON_grows [of st E D]
  by (cases "toJSON E D st") (auto simp add: addConfig_def split: sum.splits)

lemma addFile_grows: "cache_grows st (snd (addFile E D st p))"
proof -
  obtain r1 s1 where l1: "loadFile E D st p = (r1, s1)" by fastforce
  have g1: "cache_grows st s1" using loadFile_grows [of st E D p] l1 by simp
  have "cache_grows st (snd (addConfig E D s1 c))" for c
    using g1 addConfig_grows by (rule cache_grows_trans)
  then show ?thesis using l1 g1 by (simp add: addFile_def split: sum.splits)
qed

lemma addString_grows: "cache_grows st (snd (addString E D st s))"
  by (simp add: addString_def addConfig_grows split: sum.splits)

lemma addScript_grows: "cache_grows st (snd (addScript E D st s))"
proof -
  obtain r s1 where t: "toJSON E D st = (r, s1)" by fastforce
  have g: "cache_grows st s1" using toJSON_grows [of st E D] t by simp
  show ?thesis using t g
    by (cases r; cases "runInNewContext E s (projr r)")
       (auto simp add: addScript_def split: option.splits)
qed

lemma outcome_snd [simp]: "snd (outcome r) = snd r"
  by (simp add: outcome_def split: prod.splits sum.splits)

lemma do_call_grows: "cache_grows st (snd (do_call E D st c))"
  by (cases c)
     (simp_all add: loadFile_grows getDefaults_grows toJSON_grows addConfig_grows
        addFile_grows addString_grows addScript_grows getPackage_def)

lemma run_grows: "cache_grows st (run E st cs)"
proof (induction cs arbitrary: st)
  case Nil
  show ?case by simp
next
  case (Cons dc cs)
  obtain D c where dc: "dc = (D, c)" by (cases dc)
  have "cache_grows st (snd (do_call E D st c))" by (rule do_call_grows)
  moreover have "cache_grows (snd (do_call E D st c)) (run E (snd (do_call E D st c)) cs)"
    by (rule Cons.IH)
  ultimately show ?case unfolding dc by (simp add: cache_grows_trans)
qed

lemma addFile_first_lookup:
  assumes "\<not> truthy (cache_get st (resolve E (appRoot st) p))"
    and "D (resolve E (appRoot st) p) = None"
  shows "cache_get (snd (loadFile E D st p)) (resolve E (appRoot st) p) = JObj []"
    and "cache_get (snd (addFile E D st p)) (resolve E (appRoot st) p) = JObj []"
proof -
  let ?q = "resolve E (appRoot st) p"
  let ?st1 = "cache_put ?q (JObj []) (log_call (ExistsSync ?q) st)"
  have l: "loadFile E D st p = (Inr (JObj []), ?st1)" using assms by (rule loadFile_missing)
  have c1: "cache_get ?st1 ?q = JObj []" by (simp add: cache_get_def cache_put_def)
  show "cache_get (snd (loadFile E D st p)) ?q = JObj []" using l c1 by simp
  have "cache_grows ?st1 (snd (addConfig E D ?st1 (JObj [])))" by (rule addConfig_grows)
  then have "cache_get (snd (addConfig E D ?st1 (JObj []))) ?q = JObj []"
    using c1 by (simp add: cache_grows_def)
  then show "cache_get (snd (addFile E D st p)) ?q = JObj []"
    using l by (simp add: addFile_def)
qed

text \<open>
  C8: let the first lookup of \<open>p\<close> (by \<open>loadFile\<close> or by \<open>addFile\<close>) find no truthy cache
  entry and no file on the disk. Then after any sequence of later calls, each on any
  disk, and on any disk \<open>D'\<close> thereafter: \<open>loadFile\<close> of \<open>p\<close> returns the cached empty
  object and leaves the store as it is (so it makes no call to the disk), \<open>addFile\<close> of
  \<open>p\<close> is \<open>addConfig\<close> of the empty object, and where the snapshot can be taken it returns
  with the snapshot as the accumulated state: the file contributes nothing.
\<close>

theorem missing_file_stays_empty:
  assumes "\<not> truthy (cache_get st (resolve E (appRoot st) p))"
    and "D (resolve E (appRoot st) p) = None"
    and "st1 = snd (loadFile E D st p) \<or> st1 = snd (addFile E D st p)"
    and "st2 = run E st1 cs"
  shows "loadFile E D' st2 p = (Inr (JObj []), st2)
     \<and> addFile E D' st2 p = addConfig E D' st2 (JObj [])
     \<and> (\<forall>cur. fst (toJSON E D' st2) = Inr cur \<longrightarrow>
          fst (addFile E D' st2 p) = Inr () \<and> config (snd (addFile E D' st2 p)) = cur)"
proof -
  let ?q = "resolve E (appRoot st) p"
  have c1: "cache_get st1 ?q = JObj []"
    using addFile_first_lookup [of st E p D] assms(1,2,3) by auto
  have a1: "appRoot st1 = appRoot st"
    using assms(3) loadFile_grows [of st E D p] addFile_grows [of st E D p]
    by (auto simp add: cache_grows_def)
  have g: "cache_grows st1 st2" unfolding assms(4) by (rule run_grows)
  then have c2: "cache_get st2 (resolve E (appRoot st2) p) = JObj []"
    using c1 a1 by (simp add: cache_grows_def)
  then have l: "loadFile E D' st2 p = (Inr (JObj []), st2)"
    using loadFile_cached [of st2 E p D'] by simp
  then have af: "addFile E D' st2 p = addConfig E D' st2 (JObj [])"
    by (simp add: addFile_def)
  have "fst (addConfig E D' st2 (JObj [])) = Inr ()
        \<and> config (snd (addConfig E D' st2 (JObj []))) = cur"
    if "fst (toJSON E D' st2) = Inr cur" for cur
    using that by (cases "toJSON E D' st2") (auto simp add: addConfig_def)
  then show ?thesis using l af by simp
qed

theorem missing_file_stays_empty_witness:
  "D_late ''/app/late.json'' = Some (Readable ''{a: 1}'')
   \<and> loadFile E0 D_late
        (run E0 (snd (loadFile E0 D_pkg (Config_new E0 (Some ''/app'')) ''late.json''))
           [(D_late, AddConfig (JObj [(''port'', JNum 3000)]))]) ''late.json''
      = (Inr (JObj []),
         run E0 (snd (loadFile E0 D_pkg (Config_new E0 (Some ''/app'')) ''late.json''))
           [(D_late, AddConfig (JObj [(''port'', JNum 3000)]))])
   \<and> fst (addFile E0 D_late
        (run E0 (snd (loadFile E0 D_pkg (Config_new E0 (Some ''/app'')) ''late.json''))
           [(D_late, AddConfig (JObj [(''port'', JNum 3000)]))]) ''late.json'') = Inr ()
   \<and> config (snd (addFile E0 D_late
        (run E0 (snd (loadFile E0 D_pkg (Config_new E0 (Some ''/app'')) ''late.json''))
           [(D_late, AddConfig (JObj [(''port'', JNum 3000)]))]) ''late.json''))
      = JObj [(''APP_NAME'', JStr ''app''), (''APP_VERSION'', JStr ''1.0.0''),
              (''APP_ROOT'', JStr ''/app''), (''port'', JNum 3000)]"
proof -
  let ?st0 = "Config_new E0 (Some ''/app'')"
  let ?st1 = "snd (loadFile E0 D_pkg ?st0 ''late.json'')"
  let ?cs = "[(D_late, AddConfig (JObj [(''port'', JNum 3000)]))]"
  let ?st2 = "run E0 ?st1 ?cs"
  let ?cur = "JObj [(''APP_NAME'', JStr ''app''), (''APP_VERSION'', JStr ''1.0.0''),
                    (''APP_ROOT'', JStr ''/app''), (''port'', JNum 3000)]"
  have h1: "\<not> truthy (cache_get ?st0 (resolve E0 (appRoot ?st0) ''late.json''))"
    by (simp add: store_defs env0_defs)
  have h2: "D_pkg (resolve E0 (appRoot ?st0) ''late.json'') = None"
    by (simp add: store_defs env0_defs D_pkg_def)
  have h3: "fst (toJSON E0 D_late ?st2) = Inr ?cur"
    by (simp add: store_defs env0_defs D_pkg_def D_late_def outcome_def)
  have h4: "D_late ''/app/late.json'' = Some (Readable ''{a: 1}'')"
    by (simp add: D_late_def)
  have T: "loadFile E0 D_late ?st2 ''late.json'' = (Inr (JObj []), ?st2)
     \<and> addFile E0 D_late ?st2 ''late.json'' = addConfig E0 D_late ?st2 (JObj [])
     \<and> (\<forall>cur. fst (toJSON E0 D_late ?st2) = Inr cur \<longrightarrow>
          fst (addFile E0 D_late ?st2 ''late.json'') = Inr ()
          \<and> config (snd (addFile E0 D_late ?st2 ''late.json'')) = cur)"
    by (rule missing_file_stays_empty [where st = ?st0 and D = D_pkg and ?st1.0 = ?st1
          and cs = ?cs, OF h1 h2]) (rule disjI1, rule refl, rule refl)
  then have "fst (addFile E0 D_late ?st2 ''late.json'') = Inr ()
     \<and> config (snd (addFile E0 D_late ?st2 ''late.json'')) = ?cur"
    using h3 by blast
  with T h4 show ?thesis by blast
qed

subsection \<open>The deep merge along key paths\<close>

lemma map_of_set_prop [simp]: "map_of (set_prop k v fs) = (map_of fs)(k \<mapsto> v)"
  by (induction fs) auto

lemma map_of_merge_fields_other:
  "k \<notin> fst ` set s \<Longrightarrow> map_of (merge_fields d s) k = map_of d k"
  by (induction s arbitrary: d) auto

lemma map_of_merge_fields_key:
  "distinct (map fst s) \<Longrightarrow> map_of s k = Some v \<Longrightarrow>
   map_of (merge_fields d s) k
     = Some (case map_of d k of Some dv \<Rightarrow> merge_val dv v | None \<Rightarrow> v)"
proof (induction s arbitrary: d)
  case Nil
  then show ?case by simp
next
  case (Cons kv s)
  obtain k' v' where kv: "kv = (k', v')" by (cases kv)
  show ?case
  proof (cases "k = k'")
    case True
    then have "k \<notin> fst ` set s" using Cons.prems kv by auto
    then show ?thesis using True Cons.prems kv by (simp add: map_of_merge_fields_other)
  next
    case False
    then show ?thesis using Cons kv by simp
  qed
qed

lemma wf_field: "wf (JObj fs) \<Longrightarrow> map_of fs k = Some v \<Longrightarrow> wf v"
  by (auto simp add: list_all_iff dest: map_of_SomeD)

lemma at_path_merge_leaf:
  "wf s \<Longrightarrow> at_path s p = Some v \<Longrightarrow> \<not> is_obj v \<Longrightarrow> at_path (merge_val d s) p = Some v"
proof (induction p arbitrary: d s)
  case Nil
  then show ?case by (cases "(d, s)" rule: merge_val.cases) auto
next
  case (Cons k ks)
  from Cons.prems(2) obtain sf sv where s: "s = JObj sf" and sv: "map_of sf k = Some sv"
    and v: "at_path sv ks = Some v"
    by (cases s) (auto split: option.splits)
  have wsv: "wf sv" using Cons.prems(1) sv unfolding s by (rule wf_field)
  show ?case
  proof (cases d)
    case (JObj df)
    have "map_of (merge_fields df sf) k
            = Some (case map_of df k of Some dv \<Rightarrow> merge_val dv sv | None \<Rightarrow> sv)"
      using Cons.prems(1) s sv by (intro map_of_merge_fields_key) auto
    then show ?thesis
      using JObj s v Cons.IH [OF wsv v Cons.prems(3)] by (auto split: option.splits)
  qed (use Cons.prems s in auto)
qed

lemma at_path_merge_absent:
  "absent_in s p \<Longrightarrow> wf s \<Longrightarrow> at_path d p = Some v \<Longrightarrow> at_path (merge_val d s) p = Some v"
proof (induction p arbitrary: d s)
  case Nil
  then show ?case by (cases s) auto
next
  case (Cons k ks)
  from Cons.prems(1) obtain sf where s: "s = JObj sf" by (cases s) auto
  from Cons.prems(3) obtain df dv where d: "d = JObj df" and dv: "map_of df k = Some dv"
    and v: "at_path dv ks = Some v"
    by (cases d) (auto split: option.splits)
  show ?case
  proof (cases "map_of sf k")
    case None
    then have "k \<notin> fst ` set sf" by (simp add: map_of_eq_None_iff)
    then show ?thesis using s d dv v by (simp add: map_of_merge_fields_other)
  next
    case (Some sv)
    have wsv: "wf sv" using Cons.prems(2) Some unfolding s by (rule wf_field)
    have ab: "absent_in sv ks" using Cons.prems(1) s Some by simp
    have "map_of (merge_fields df sf) k = Some (merge_val dv sv)"
      using Cons.prems(2) s Some dv map_of_merge_fields_key [of sf k sv df] by auto
    then show ?thesis using s d Cons.IH [OF ab wsv v] by simp
  qed
qed

subsection \<open>addConfig after addConfig\<close>

text \<open>
  C1: on a store whose \<open>config\<close> is unset or an object, let \<open>addConfig A\<close> and then
  \<open>addConfig B\<close> return, for objects \<open>A\<close> and \<open>B\<close> with distinct keys in each object. Then
  the snapshot is the accumulated state, in which every key path that leads to a
  non-object value in \<open>B\<close> has \<open>B\<close>'s value (whether or not \<open>A\<close> has the path), and every
  key path that leads to a non-object value in \<open>A\<close> and is absent from \<open>B\<close> has \<open>A\<close>'s
  value; object values are not replaced but merged key by key, which is what the
  statement for the paths through them says. In particular, on a store with no
  accumulated state yet, the fragments of the spec's example give
  \<open>db = {host: 'localhost', port: 5433}\<close>.
\<close>

theorem addConfig_twice_overrides:
  assumes "config st = JUndefined \<or> is_obj (config st)"
    and "is_obj A" and "wf A" and "is_obj B" and "wf B"
    and "addConfig E D st A = (Inr (), st1)"
    and "addConfig E D' st1 B = (Inr (), st2)"
  shows "toJSON E D'' st2 = (Inr (config st2), st2)
     \<and> (\<forall>p v. at_path B p = Some v \<and> \<not> is_obj v \<longrightarrow> at_path (config st2) p = Some v)
     \<and> (\<forall>p v. at_path A p = Some v \<and> \<not> is_obj v \<and> absent_in B p \<longrightarrow>
            at_path (config st2) p = Some v)
     \<and> (config st = JUndefined
          \<and> A = JObj [(''db'', JObj [(''host'', JStr ''localhost''), (''port'', JNum 5432)])]
          \<and> B = JObj [(''db'', JObj [(''port'', JNum 5433)])] \<longrightarrow>
        get_prop (config st2) ''db''
          = JObj [(''host'', JStr ''localhost''), (''port'', JNum 5433)])"
proof -
  obtain cur s where t: "toJSON E D st = (Inr cur, s)"
    and c1: "config st1 = deepMergeExtend E cur A"
    using addConfig_result [OF assms(6)] by blast
  have oc: "is_obj cur" using assms(1) t by (rule toJSON_obj)
  have m1: "config st1 = merge_val cur A" and o1: "is_obj (config st1)"
    using deepMergeExtend_objs [OF oc assms(2), of E] c1 by auto
  have tr1: "truthy (config st1)" using o1 by (cases "config st1") auto
  have "toJSON E D' st1 = (Inr (config st1), st1)" using tr1 by (rule toJSON_set)
  then have c2: "config st2 = deepMergeExtend E (config st1) B"
    using addConfig_result [OF assms(7)] by auto
  have m2: "config st2 = merge_val (merge_val cur A) B" and o2: "is_obj (config st2)"
    using deepMergeExtend_objs [OF o1 assms(4), of E] c2 m1 by auto
  have tr2: "truthy (config st2)" using o2 by (cases "config st2") auto
  have g1: "toJSON E D'' st2 = (Inr (config st2), st2)" using tr2 by (rule toJSON_set)
  have g2: "at_path (config st2) p = Some v" if "at_path B p = Some v" "\<not> is_obj v" for p v
    unfolding m2 using assms(5) that by (rule at_path_merge_leaf)
  have g3: "at_path (config st2) p = Some v"
    if "at_path A p = Some v" "\<not> is_obj v" "absent_in B p" for p v
  proof -
    have "at_path (merge_val cur A) p = Some v"
      using assms(3) that(1,2) by (rule at_path_merge_leaf)
    with that(3) assms(5) show ?thesis unfolding m2 by (rule at_path_merge_absent)
  qed
  have g4: "get_prop (config st2) ''db''
          = JObj [(''host'', JStr ''localhost''), (''port'', JNum 5433)]"
    if u: "config st = JUndefined"
      and a: "A = JObj [(''db'', JObj [(''host'', JStr ''localhost''), (''port'', JNum 5432)])]"
      and b: "B = JObj [(''db'', JObj [(''port'', JNum 5433)])]"
  proof -
    have "getDefaults E D st = (Inr cur, s)" using t u by (simp add: toJSON_def)
    then obtain n v where
      "cur = JObj [(''APP_NAME'', n), (''APP_VERSION'', v), (''APP_ROOT'', JStr (appRoot st))]"
      using getDefaults_shape by blast
    then show ?thesis unfolding m2 a b by simp
  qed
  show ?thesis using g1 g2 g3 g4 by blast
qed

theorem addConfig_twice_overrides_witness:
  "get_prop (config (snd (addConfig E0 Map.empty
        (snd (addConfig E0 Map.empty (Config_new E0 (Some ''/app''))
           (JObj [(''db'', JObj [(''host'', JStr ''localhost''), (''port'', JNum 5432)])])))
        (JObj [(''db'', JObj [(''port'', JNum 5433)])])))) ''db''
     = JObj [(''host'', JStr ''localhost''), (''port'', JNum 5433)]
   \<and> at_path (config (snd (addConfig E0 Map.empty
        (snd (addConfig E0 Map.empty (Config_new E0 (Some ''/app''))
           (JObj [(''db'', JObj [(''host'', JStr ''localhost''), (''port'', JNum 5432)])])))
        (JObj [(''db'', JObj [(''port'', JNum 5433)])])))) [''db'', ''port'']
     = Some (JNum 5433)
   \<and> at_path (config (snd (addConfig E0 Map.empty
        (snd (addConfig E0 Map.empty (Config_new E0 (Some ''/app''))
           (JObj [(''db'', JObj [(''host'', JStr ''localhost''), (''port'', JNum 5432)])])))
        (JObj [(''db'', JObj [(''port'', JNum 5433)])])))) [''db'', ''host'']
     = Some (JStr ''localhost'')"
proof -
  let ?st0 = "Config_new E0 (Some ''/app'')"
  let ?A = "JObj [(''db'', JObj [(''host'', JStr ''localhost''), (''port'', JNum 5432)])]"
  let ?B = "JObj [(''db'', JObj [(''port'', JNum 5433)])]"
  let ?st1 = "snd (addConfig E0 Map.empty ?st0 ?A)"
  let ?st2 = "snd (addConfig E0 Map.empty ?st1 ?B)"
  have h1: "config ?st0 = JUndefined \<or> is_obj (config ?st0)"
    by (simp add: Config_new_def)
  have h2: "is_obj ?A" "wf ?A" "is_obj ?B" "wf ?B"
    by simp_all
  have h6: "addConfig E0 Map.empty ?st0 ?A = (Inr (), ?st1)"
    by (simp add: store_defs env0_defs)
  have h7: "addConfig E0 Map.empty ?st1 ?B = (Inr (), ?st2)"
    by (simp add: store_defs env0_defs)
  have e: "config ?st0 = JUndefined"
    "at_path ?B [''db'', ''port''] = Some (JNum 5433)" "\<not> is_obj (JNum 5433)"
    "at_path ?A [''db'', ''host''] = Some (JStr ''localhost'')" "\<not> is_obj (JStr ''localhost'')"
    "absent_in ?B [''db'', ''host'']"
    by (simp_all add: Config_new_def)
  show ?thesis
    using e addConfig_twice_overrides [where st = ?st0 and A = ?A and B = ?B and E = E0
        and D = Map.empty and D' = Map.empty and D'' = Map.empty
        and ?st1.0 = ?st1 and ?st2.0 = ?st2, OF h1 h2 h6 h7]
    by blast
qed

subsection \<open>Values that do not depend on the rest of the store\<close>

lemma loadFile_value:
  "fst (loadFile E D st p) = load_value E D st (resolve E (appRoot st) p)"
  by (simp add: loadFile_def load_value_def Let_def split: sum.splits)

lemma load_value_after_loadFile:
  "load_value E D (snd (loadFile E D st p)) q = load_value E D st q"
  by (auto simp add: loadFile_def load_value_def Let_def cache_get_def cache_put_def
      log_call_def split: sum.splits)

lemma getDefaults_value_eq:
  "fst (getDefaults E D st)
     = defaults_of (load_value E D st (resolve E (appRoot st) ''package.json'')) (appRoot st)"
proof -
  obtain r1 s1 where l1: "loadFile E D st ''package.json'' = (r1, s1)" by fastforce
  obtain r2 s2 where l2: "loadFile E D s1 ''package.json'' = (r2, s2)" by fastforce
  let ?q = "resolve E (appRoot st) ''package.json''"
  have a1: "appRoot s1 = appRoot st" using l1 by (metis loadFile_appRoot snd_conv)
  have a2: "appRoot s2 = appRoot st" using l2 a1 by (metis loadFile_appRoot snd_conv)
  have r1: "r1 = load_value E D st ?q"
    using loadFile_value [of E D st "''package.json''"] l1 by simp
  have "r2 = load_value E D s1 ?q"
    using loadFile_value [of E D s1 "''package.json''"] l2 a1 by simp
  also have "\<dots> = load_value E D st ?q"
    using load_value_after_loadFile [of E D st "''package.json''" ?q] l1 by simp
  finally have r2: "r2 = r1" using r1 by simp
  show ?thesis
    using l1 l2 r1 r2 a2
    by (auto simp add: getDefaults_def getPackage_def defaults_of_def split: sum.splits)
qed

lemma toJSON_value_eq:
  "fst (toJSON E D st)
     = (if truthy (config st) then Inr (config st)
        else defaults_of (load_value E D st (resolve E (appRoot st) ''package.json''))
               (appRoot st))"
  by (simp add: toJSON_def getDefaults_value_eq)

lemma addConfig_value_eq:
  "fst (addConfig E D st c) = (case fst (toJSON E D st) of Inl e \<Rightarrow> Inl e | Inr cur \<Rightarrow> Inr ())
   \<and> config (snd (addConfig E D st c))
       = (case fst (toJSON E D st) of Inl e \<Rightarrow> config st | Inr cur \<Rightarrow> deepMergeExtend E cur c)"
proof -
  have "config (snd (toJSON E D st)) = config st"
  proof -
    obtain r1 s1 where l1: "loadFile E D st ''package.json'' = (r1, s1)" by fastforce
    obtain r2 s2 where l2: "loadFile E D s1 ''package.json'' = (r2, s2)" by fastforce
    have "config s1 = config st" using l1 by (metis loadFile_config snd_conv)
    moreover have "config s2 = config s1" using l2 by (metis loadFile_config snd_conv)
    ultimately show ?thesis using l1 l2
      by (auto simp add: toJSON_def getDefaults_def getPackage_def split: sum.splits)
  qed
  then show ?thesis
    by (cases "toJSON E D st") (auto simp add: addConfig_def split: sum.splits)
qed

lemma toJSON_after_loadFile:
  "fst (toJSON E D (snd (loadFile E D st p))) = fst (toJSON E D st)"
  by (simp add: toJSON_value_eq load_value_after_loadFile)

lemma addFile_value_eq:
  "fst (addFile E D st p)
     = (case fst (loadFile E D st p) of
          Inl e \<Rightarrow> Inl e
        | Inr c \<Rightarrow> (case fst (toJSON E D st) of Inl e \<Rightarrow> Inl e | Inr cur \<Rightarrow> Inr ()))
   \<and> config (snd (addFile E D st p))
       = (case fst (loadFile E D st p) of
            Inl e \<Rightarrow> config st
          | Inr c \<Rightarrow>
              (case fst (toJSON E D st) of
                 Inl e \<Rightarrow> config st
               | Inr cur \<Rightarrow> deepMergeExtend E cur c))"
proof -
  obtain r1 s1 where l1: "loadFile E D st p = (r1, s1)" by fastforce
  have c1: "config s1 = config st" using l1 by (metis loadFile_config snd_conv)
  have t1: "fst (toJSON E D s1) = fst (toJSON E D st)"
    using toJSON_after_loadFile [of E D st p] l1 by simp
  show ?thesis
    using l1 c1 t1 addConfig_value_eq [of E D s1]
    by (auto simp add: addFile_def split: sum.splits)
qed

text \<open>
  C9, as the code has it: let the store resolve \<open>p1\<close> to a path with extension \<open>.yaml\<close> and \<open>p2\<close> to one with
  extension \<open>.json\<close>, neither served from the cache, both readable on the disk, and let
  the YAML parser give for the first content the value the relaxed-JSON parser gives for
  the second. Then \<open>addFile p1\<close> and \<open>addFile p2\<close>, on the same store, return or throw
  alike and leave the same accumulated \<open>config\<close>.
\<close>

theorem addFile_yaml_json_same:
  assumes "extname E (resolve E (appRoot st) p1) = ''.yaml''"
    and "extname E (resolve E (appRoot st) p2) = ''.json''"
    and "\<not> truthy (cache_get st (resolve E (appRoot st) p1))"
    and "\<not> truthy (cache_get st (resolve E (appRoot st) p2))"
    and "D (resolve E (appRoot st) p1) = Some (Readable c1)"
    and "D (resolve E (appRoot st) p2) = Some (Readable c2)"
    and "yaml_load E c1 = Inr v" and "json5_parse E c2 = Inr v"
  shows "fst (addFile E D st p1) = fst (addFile E D st p2)
     \<and> config (snd (addFile E D st p1)) = config (snd (addFile E D st p2))"
proof -
  have "fst (loadFile E D st p1) = Inr v"
    using assms(1,3,5,7)
    by (simp add: loadFile_value load_value_def readFileSync_def parseFile_def)
  moreover have "fst (loadFile E D st p2) = Inr v"
    using assms(2,4,6,8)
    by (simp add: loadFile_value load_value_def readFileSync_def parseFile_def)
  ultimately show ?thesis by (simp add: addFile_value_eq)
qed

theorem addFile_yaml_json_same_witness:
  "fst (addFile E0 D_both (Config_new E0 (Some ''/app'')) ''a.yaml'')
     = fst (addFile E0 D_both (Config_new E0 (Some ''/app'')) ''a.json'')
   \<and> config (snd (addFile E0 D_both (Config_new E0 (Some ''/app'')) ''a.yaml''))
     = config (snd (addFile E0 D_both (Config_new E0 (Some ''/app'')) ''a.json''))
   \<and> config (snd (addFile E0 D_both (Config_new E0 (Some ''/app'')) ''a.yaml''))
     = JObj [(''APP_NAME'', JUndefined), (''APP_VERSION'', JUndefined),
             (''APP_ROOT'', JStr ''/app''), (''a'', JNum 1)]"
proof -
  let ?st0 = "Config_new E0 (Some ''/app'')"
  have h1: "extname E0 (resolve E0 (appRoot ?st0) ''a.yaml'') = ''.yaml''"
    by (simp add: store_defs env0_defs)
  have h2: "extname E0 (resolve E0 (appRoot ?st0) ''a.json'') = ''.json''"
    by (simp add: store_defs env0_defs)
  have h3: "\<not> truthy (cache_get ?st0 (resolve E0 (appRoot ?st0) ''a.yaml''))"
    by (simp add: store_defs env0_defs)
  have h4: "\<not> truthy (cache_get ?st0 (resolve E0 (appRoot ?st0) ''a.json''))"
    by (simp add: store_defs env0_defs)
  have h5: "D_both (resolve E0 (appRoot ?st0) ''a.yaml'') = Some (Readable ''a: 1'')"
    by (simp add: store_defs env0_defs D_both_def)
  have h6: "D_both (resolve E0 (appRoot ?st0) ''a.json'') = Some (Readable ''{\"a\": 1}'')"
    by (simp add: store_defs env0_defs D_both_def)
  have h7: "yaml_load E0 ''a: 1'' = Inr (JObj [(''a'', JNum 1)])"
    by (simp add: env0_defs)
  have h8: "json5_parse E0 ''{\"a\": 1}'' = Inr (JObj [(''a'', JNum 1)])"
    by (simp add: env0_defs)
  have e: "config (snd (addFile E0 D_both ?st0 ''a.yaml''))
     = JObj [(''APP_NAME'', JUndefined), (''APP_VERSION'', JUndefined),
             (''APP_ROOT'', JStr ''/app''), (''a'', JNum 1)]"
    by (simp add: store_defs env0_defs D_both_def)
  show ?thesis
    using e h1 h2 h3 h4 h5 h6 h7 h8
      addFile_yaml_json_same [where E = E0 and st = ?st0 and D = D_both
        and ?p1.0 = "''a.yaml''" and ?p2.0 = "''a.json''"
        and ?c1.0 = "''a: 1''" and ?c2.0 = "''{\"a\": 1}''"
        and v = "JObj [(''a'', JNum 1)]"]
    by blast
qed

text \<open>
  C9 as stated fails: the YAML file was loaded once when it held another value, and that
  value is still in the cache. With both files now holding the same data, \<open>addFile\<close> of
  the YAML file merges the cached value and \<open>addFile\<close> of the JSON file the value on the
  disk, on the same store.
\<close>

theorem addFile_yaml_json_same_counterexample:
  "D_both ''/app/a.yaml'' = Some (Readable ''a: 1'')
   \<and> D_both ''/app/a.json'' = Some (Readable ''{\"a\": 1}'')
   \<and> yaml_load E0 ''a: 1'' = json5_parse E0 ''{\"a\": 1}''
   \<and> get_prop (config (snd (addFile E0 D_both
          (snd (loadFile E0 D_before (Config_new E0 (Some ''/app'')) ''a.yaml'')) ''a.yaml''))) ''a''
       = JNum 2
   \<and> get_prop (config (snd (addFile E0 D_both
          (snd (loadFile E0 D_before (Config_new E0 (Some ''/app'')) ''a.yaml'')) ''a.json''))) ''a''
       = JNum 1"
  by (simp add: store_defs env0_defs D_both_def D_before_def)

subsection \<open>The default keys\<close>

lemma outcome_fst_None: "fst (outcome r) = None \<longleftrightarrow> (\<exists>v. fst r = Inr v)"
  by (cases r) (auto simp add: outcome_def split: sum.splits)

lemma add_call_step:
  assumes "fragment E D st c = Some f" and "fst (do_call E D st c) = None"
  shows "\<exists>cur. fst (toJSON E D st) = Inr cur
           \<and> config (snd (do_call E D st c)) = deepMergeExtend E cur f"
proof (cases c)
  case (AddConfig x)
  then show ?thesis
    using assms addConfig_value_eq [of E D st x]
    by (auto simp add: outcome_fst_None split: sum.splits)
next
  case (AddFile p)
  then show ?thesis
    using assms addFile_value_eq [of E D st p]
    by (auto simp add: outcome_fst_None split: sum.splits)
next
  case (AddString s)
  then show ?thesis
    using assms addConfig_value_eq [of E D st f]
    by (auto simp add: outcome_fst_None addString_def split: sum.splits)
qed (use assms in auto)

lemma get_prop_extend_default_key:
  assumes "lacks_default_keys f" and "k \<in> set default_keys" and "is_obj cur"
  shows "get_prop (deepMergeExtend E cur f) k = get_prop cur k
         \<and> is_obj (deepMergeExtend E cur f)"
proof -
  from assms(1) obtain s where f: "f = JObj s" by (cases f) auto
  from assms(3) obtain d where cur: "cur = JObj d" by (cases cur) auto
  have "k \<notin> fst ` set s" using assms(1,2) f by (auto simp add: list_all_iff)
  then have "map_of (merge_fields d s) k = map_of d k" by (rule map_of_merge_fields_other)
  then show ?thesis unfolding f cur by (cases s) auto
qed

lemma run_keeps_default_keys:
  "is_obj (config st) \<Longrightarrow> adds_ok E st cs \<Longrightarrow> k \<in> set default_keys \<Longrightarrow>
   get_prop (config (run E st cs)) k = get_prop (config st) k \<and> is_obj (config (run E st cs))"
proof (induction cs arbitrary: st)
  case Nil
  then show ?case by simp
next
  case (Cons dc cs)
  obtain D c where dc: "dc = (D, c)" by (cases dc)
  let ?st' = "snd (do_call E D st c)"
  from Cons.prems(2) dc obtain f where f: "fragment E D st c = Some f"
    and lk: "lacks_default_keys f" and ok: "fst (do_call E D st c) = None"
    and rest: "adds_ok E ?st' cs"
    by (auto split: option.splits)
  have tr: "truthy (config st)" using Cons.prems(1) by (rule is_obj_truthy)
  from add_call_step [OF f ok] tr
  have c': "config ?st' = deepMergeExtend E (config st) f"
    by (auto simp add: toJSON_value_eq)
  have kp: "get_prop (config ?st') k = get_prop (config st) k \<and> is_obj (config ?st')"
    unfolding c' using lk Cons.prems(3) Cons.prems(1) by (rule get_prop_extend_default_key)
  then have ob: "is_obj (config ?st')" by simp
  show ?case using Cons.IH [OF ob rest Cons.prems(3)] kp dc by simp
qed

text \<open>
  C10: on a store with no accumulated state yet, let a nonempty sequence of \<open>addConfig\<close>,
  \<open>addFile\<close> and \<open>addString\<close> calls all return, each on the disk of its moment, with
  fragments that are objects with none of the keys \<open>APP_NAME\<close>, \<open>APP_VERSION\<close>,
  \<open>APP_ROOT\<close>. Then
  \<open>getDefaults\<close>, on the store and the disk of the first call, returns an object, the
  accumulated state after the sequence has its values at the three keys, and the
  snapshot after the sequence is that accumulated state.
\<close>

theorem defaults_seeded_and_kept:
  assumes "config st = JUndefined" and "adds_ok E st ((D, c) # cs)"
  shows "\<exists>dflt. fst (getDefaults E D st) = Inr dflt
     \<and> (\<forall>k \<in> set default_keys.
          get_prop (config (run E st ((D, c) # cs))) k = get_prop dflt k)
     \<and> toJSON E D' (run E st ((D, c) # cs))
         = (Inr (config (run E st ((D, c) # cs))), run E st ((D, c) # cs))"
proof -
  let ?st' = "snd (do_call E D st c)"
  from assms(2) obtain f where f: "fragment E D st c = Some f"
    and lk: "lacks_default_keys f" and ok: "fst (do_call E D st c) = None"
    and rest: "adds_ok E ?st' cs"
    by (auto split: option.splits)
  from add_call_step [OF f ok] obtain dflt where t: "fst (toJSON E D st) = Inr dflt"
    and c': "config ?st' = deepMergeExtend E dflt f" by blast
  have g: "fst (getDefaults E D st) = Inr dflt" using t assms(1) by (simp add: toJSON_def)
  have od: "is_obj dflt"
    using t assms(1) toJSON_obj [of st E D dflt "snd (toJSON E D st)"]
    by (cases "toJSON E D st") auto
  have k1: "get_prop (config ?st') k = get_prop dflt k \<and> is_obj (config ?st')"
    if "k \<in> set default_keys" for k
    unfolding c' using lk that od by (rule get_prop_extend_default_key)
  have ob: "is_obj (config ?st')" using k1 [of "''APP_NAME''"] by (simp add: default_keys_def)
  have k2: "get_prop (config (run E ?st' cs)) k = get_prop (config ?st') k
            \<and> is_obj (config (run E ?st' cs))" if "k \<in> set default_keys" for k
    using ob rest that by (rule run_keeps_default_keys)
  have "is_obj (config (run E ?st' cs))" using k2 [of "''APP_NAME''"] by (simp add: default_keys_def)
  then have "truthy (config (run E ?st' cs))" by (rule is_obj_truthy)
  then have "toJSON E D' (run E st ((D, c) # cs))
         = (Inr (config (run E st ((D, c) # cs))), run E st ((D, c) # cs))"
    by (simp add: toJSON_set)
  then show ?thesis using g k1 k2 by auto
qed

theorem defaults_seeded_and_kept_witness:
  "get_prop (config (run E0 (Config_new E0 (Some ''/app''))
       [(D_pkg, AddConfig (JObj [(''port'', JNum 3000)])),
        (D_late, AddFile ''late.json''),
        (D_late, AddString ''{a: 1}'')])) ''APP_NAME'' = JStr ''app''
   \<and> get_prop (config (run E0 (Config_new E0 (Some ''/app''))
       [(D_pkg, AddConfig (JObj [(''port'', JNum 3000)])),
        (D_late, AddFile ''late.json''),
        (D_late, AddString ''{a: 1}'')])) ''APP_VERSION'' = JStr ''1.0.0''
   \<and> get_prop (config (run E0 (Config_new E0 (Some ''/app''))
       [(D_pkg, AddConfig (JObj [(''port'', JNum 3000)])),
        (D_late, AddFile ''late.json''),
        (D_late, AddString ''{a: 1}'')])) ''APP_ROOT'' = JStr ''/app''"
proof -
  let ?st0 = "Config_new E0 (Some ''/app'')"
  let ?c = "AddConfig (JObj [(''port'', JNum 3000)])"
  let ?cs = "[(D_late, AddFile ''late.json''), (D_late, AddString ''{a: 1}'')]"
  let ?d = "JObj [(''APP_NAME'', JStr ''app''), (''APP_VERSION'', JStr ''1.0.0''),
                  (''APP_ROOT'', JStr ''/app'')]"
  have h1: "config ?st0 = JUndefined"
    by (simp add: Config_new_def)
  have h2: "adds_ok E0 ?st0 ((D_pkg, ?c) # ?cs)"
    by (simp add: store_defs env0_defs D_pkg_def D_late_def outcome_def default_keys_def)
  have g: "fst (getDefaults E0 D_pkg ?st0) = Inr ?d"
    by (simp add: store_defs env0_defs D_pkg_def)
  from defaults_seeded_and_kept [where E = E0 and st = ?st0 and D = D_pkg and c = ?c
      and cs = ?cs, OF h1 h2]
  obtain dflt where d: "fst (getDefaults E0 D_pkg ?st0) = Inr dflt"
    and ks: "\<forall>k \<in> set default_keys.
          get_prop (config (run E0 ?st0 ((D_pkg, ?c) # ?cs))) k = get_prop dflt k"
    by blast
  have "dflt = ?d" using d g by simp
  then show ?thesis using ks by (simp add: default_keys_def)
qed

subsection \<open>The accumulated state stays an object\<close>

text \<open>
  The accumulated state is unset or an object after every call whose fragment, if it has
  one, is an object: the hypothesis on \<open>config\<close> made above holds of every store reached
  from the constructor by such calls.
\<close>

lemma getDefaults_config [simp]: "config (snd (getDefaults E D st)) = config st"
proof -
  obtain r1 s1 where l1: "loadFile E D st ''package.json'' = (r1, s1)" by fastforce
  obtain r2 s2 where l2: "loadFile E D s1 ''package.json'' = (r2, s2)" by fastforce
  have "config s1 = config st" using l1 by (metis loadFile_config snd_conv)
  moreover have "config s2 = config s1" using l2 by (metis loadFile_config snd_conv)
  ultimately show ?thesis using l1 l2
    by (auto simp add: getDefaults_def getPackage_def split: sum.splits)
qed

lemma toJSON_config [simp]: "config (snd (toJSON E D st)) = config st"
  by (simp add: toJSON_def)

lemma addConfig_config_ok:
  assumes "config st = JUndefined \<or> is_obj (config st)" and "is_obj c"
  shows "config (snd (addConfig E D st c)) = JUndefined
         \<or> is_obj (config (snd (addConfig E D st c)))"
proof (cases "fst (toJSON E D st)")
  case (Inl e)
  then show ?thesis using assms addConfig_value_eq [of E D st c] by simp
next
  case (Inr cur)
  then have "is_obj cur" using assms(1) toJSON_obj [of st E D cur "snd (toJSON E D st)"]
    by (cases "toJSON E D st") auto
  then have "is_obj (deepMergeExtend E cur c)"
    using assms(2) by (rule deepMergeExtend_is_obj)
  then show ?thesis using Inr addConfig_value_eq [of E D st c] by simp
qed

lemma addScript_config_ok:
  assumes "config st = JUndefined \<or> is_obj (config st)"
  shows "config (snd (addScript E D st s)) = JUndefined
         \<or> is_obj (config (snd (addScript E D st s)))"
proof -
  obtain r s1 where t: "toJSON E D st = (r, s1)" by fastforce
  have c1: "config s1 = config st" using toJSON_config [of E D st] t by simp
  show ?thesis
  proof (cases r)
    case (Inl e)
    then show ?thesis using t c1 assms by (simp add: addScript_def)
  next
    case (Inr cur)
    have "is_obj cur" using assms t Inr toJSON_obj by blast
    then obtain fs where "cur = JObj fs" by (cases cur) auto
    then show ?thesis using t Inr
      by (cases "vm_run E s fs")
         (auto simp add: addScript_def runInNewContext_def split: option.splits)
  qed
qed

lemma do_call_config_ok:
  assumes "config st = JUndefined \<or> is_obj (config st)"
    and "\<And>f. fragment E D st c = Some f \<Longrightarrow> is_obj f"
  shows "config (snd (do_call E D st c)) = JUndefined
         \<or> is_obj (config (snd (do_call E D st c)))"
proof (cases c)
  case (AddConfig x)
  then show ?thesis using addConfig_config_ok [OF assms(1), of x E D] assms(2) by simp
next
  case (AddFile p)
  show ?thesis
  proof (cases "fst (loadFile E D st p)")
    case (Inl e)
    then show ?thesis using AddFile assms(1) addFile_value_eq [of E D st p] by simp
  next
    case (Inr v)
    then have ov: "is_obj v" using AddFile assms(2) by simp
    obtain s1 where l: "loadFile E D st p = (Inr v, s1)"
      using Inr by (cases "loadFile E D st p") auto
    have "config s1 = config st" using l by (metis loadFile_config snd_conv)
    then have "config (snd (addConfig E D s1 v)) = JUndefined
         \<or> is_obj (config (snd (addConfig E D s1 v)))"
      using addConfig_config_ok [of s1 v E D] assms(1) ov by simp
    then show ?thesis using AddFile l by (simp add: addFile_def)
  qed
next
  case (AddString s)
  show ?thesis
  proof (cases "parseFile E s None")
    case (Inl e)
    then show ?thesis using AddString assms(1) by (simp add: addString_def)
  next
    case (Inr v)
    then have "is_obj v" using AddString assms(2) by simp
    then show ?thesis
      using AddString Inr addConfig_config_ok [OF assms(1), of v E D] by (simp add: addString_def)
  qed
next
  case (AddScript s)
  then show ?thesis using addScript_config_ok [OF assms(1)] by simp
qed (use assms(1) in \<open>simp_all add: getPackage_def\<close>)

text \<open>
  Why the statements about a file ask that its path is not served from the cache: a file
  loaded once and deleted afterwards is still merged from the cache. Here \<open>a.json\<close> is
  added, its key overridden, the file deleted, and \<open>addFile\<close> of the path brings the
  file's old value back.
\<close>

lemma addFile_deleted_file_cached:
  "get_prop (config (snd (addConfig E0 D_both
       (snd (addFile E0 D_both (Config_new E0 (Some ''/app'')) ''a.json''))
       (JObj [(''a'', JNum 2)])))) ''a'' = JNum 2
   \<and> get_prop (config (snd (addFile E0 Map.empty
       (snd (addConfig E0 D_both
          (snd (addFile E0 D_both (Config_new E0 (Some ''/app'')) ''a.json''))
          (JObj [(''a'', JNum 2)]))) ''a.json''))) ''a'' = JNum 1"
  by (simp add: store_defs env0_defs D_both_def)

subsection \<open>Merging a fragment twice\<close>

text \<open>
  Merging the same fragment a second time changes nothing, for fragments whose objects
  have distinct keys.
\<close>

lemma set_prop_same: "map_of m k = Some w \<Longrightarrow> set_prop k w m = m"
  by (induction m) (auto split: if_splits)

lemma merge_fields_noop:
  "(\<And>k v. (k, v) \<in> set s \<Longrightarrow> \<exists>w. map_of m k = Some w \<and> merge_val w v = w) \<Longrightarrow>
   merge_fields m s = m"
proof (induction s)
  case Nil
  show ?case by simp
next
  case (Cons kv s)
  obtain k v where kv: "kv = (k, v)" by (cases kv)
  obtain w where w: "map_of m k = Some w" "merge_val w v = w"
    using Cons.prems [of k v] kv by auto
  have "merge_fields m s = m" using Cons.prems by (intro Cons.IH) auto
  then show ?case using kv w by (simp add: set_prop_same)
qed

lemma merge_val_self: "wf v \<Longrightarrow> merge_val v v = v"
proof (induction v)
  case (JObj fs)
  have "merge_fields fs fs = fs"
  proof (rule merge_fields_noop)
    fix k x assume kx: "(k, x) \<in> set fs"
    have m: "map_of fs k = Some x" using JObj.prems kx by simp
    have "wf x" using JObj.prems m by (rule wf_field)
    then have "merge_val x x = x" using JObj.IH kx by force
    then show "\<exists>w. map_of fs k = Some w \<and> merge_val w x = w" using m by simp
  qed
  then show ?case by simp
qed simp_all

lemma merge_val_idem: "wf s \<Longrightarrow> merge_val (merge_val d s) s = merge_val d s"
proof (induction s arbitrary: d)
  case (JObj sf)
  show ?case
  proof (cases d)
    case (JObj df)
    have "merge_fields (merge_fields df sf) sf = merge_fields df sf"
    proof (rule merge_fields_noop)
      fix k v assume kv: "(k, v) \<in> set sf"
      have m: "map_of sf k = Some v" using JObj.prems kv by simp
      have wv: "wf v" using JObj.prems m by (rule wf_field)
      have dist: "distinct (map fst sf)" using JObj.prems by simp
      have r: "map_of (merge_fields df sf) k
             = Some (case map_of df k of Some dv \<Rightarrow> merge_val dv v | None \<Rightarrow> v)"
        using dist m by (rule map_of_merge_fields_key)
      have "merge_val (case map_of df k of Some dv \<Rightarrow> merge_val dv v | None \<Rightarrow> v) v
             = (case map_of df k of Some dv \<Rightarrow> merge_val dv v | None \<Rightarrow> v)"
      proof (cases "map_of df k")
        case None
        then show ?thesis using wv by (simp add: merge_val_self)
      next
        case (Some dv)
        have "merge_val (merge_val dv v) v = merge_val dv v"
          using JObj.IH kv wv by force
        then show ?thesis using Some by simp
      qed
      then show "\<exists>w. map_of (merge_fields df sf) k = Some w \<and> merge_val w v = w"
        using r by simp
    qed
    then show ?thesis using JObj by simp
  next
    case JUndefined
    then show ?thesis using merge_val_self [OF JObj.prems] by simp
  next
    case JNull
    then show ?thesis using merge_val_self [OF JObj.prems] by simp
  next
    case (JBool b)
    then show ?thesis using merge_val_self [OF JObj.prems] by simp
  next
    case (JNum n)
    then show ?thesis using merge_val_self [OF JObj.prems] by simp
  next
    case (JStr x)
    then show ?thesis using merge_val_self [OF JObj.prems] by simp
  next
    case (JArr x)
    then show ?thesis using merge_val_self [OF JObj.prems] by simp
  qed
qed simp_all

lemma deepMergeExtend_idem:
  assumes "wf s" and "is_obj d" and "is_obj s"
  shows "deepMergeExtend E (deepMergeExtend E d s) s = deepMergeExtend E d s"
proof -
  have 1: "deepMergeExtend E d s = merge_val d s" and 2: "is_obj (merge_val d s)"
    using deepMergeExtend_objs [OF assms(2,3), of E] by auto
  have "deepMergeExtend E (merge_val d s) s = merge_val (merge_val d s) s"
    using deepMergeExtend_objs [OF 2 assms(3), of E] by simp
  then show ?thesis using 1 assms(1) by (simp add: merge_val_idem)
qed

text \<open>
  What holds of a repeated \<open>addFile\<close> when the file's parsed value is an object (so
  truthy), on a store whose accumulated state was unset or an object: the second call, on
  any disk, returns and leaves the store exactly as it was, so it makes no call to the
  disk and the accumulated state is the one after the first call.
\<close>

lemma addFile_twice_object:
  assumes "config st = JUndefined \<or> is_obj (config st)"
    and "addFile E D st p = (Inr (), st1)"
    and "fst (loadFile E D st p) = Inr v" and "is_obj v" and "wf v"
  shows "addFile E D' st1 p = (Inr (), st1)"
proof -
  let ?q = "resolve E (appRoot st) p"
  have tv: "truthy v" using assms(4) by (rule is_obj_truthy)
  obtain s1 where l: "loadFile E D st p = (Inr v, s1)"
    using assms(3) by (cases "loadFile E D st p") auto
  have c1: "cache_get s1 ?q = v" using l tv by (rule loadFile_result_cached)
  have ac: "addConfig E D s1 v = (Inr (), st1)" using assms(2) l by (simp add: addFile_def)
  obtain cur s where t: "toJSON E D s1 = (Inr cur, s)"
    and cfg: "config st1 = deepMergeExtend E cur v"
    using addConfig_result [OF ac] by blast
  have "config s1 = config st" using l by (metis loadFile_config snd_conv)
  then have oc: "is_obj cur" using assms(1) t toJSON_obj [of s1 E D cur s] by simp
  have g: "cache_grows s1 st1" using addConfig_grows [of s1 E D v] ac by simp
  have a: "appRoot st1 = appRoot st"
    using g l by (metis cache_grows_def loadFile_appRoot snd_conv)
  have c2: "cache_get st1 (resolve E (appRoot st1) p) = v"
    using g c1 tv a by (simp add: cache_grows_def)
  have l2: "loadFile E D' st1 p = (Inr v, st1)"
    using loadFile_cached [of st1 E p D'] c2 tv by simp
  have "is_obj (config st1)"
    unfolding cfg using oc assms(4) by (rule deepMergeExtend_is_obj)
  then have tr: "truthy (config st1)" by (rule is_obj_truthy)
  have "deepMergeExtend E (config st1) v = config st1"
    unfolding cfg using assms(5) oc assms(4) by (rule deepMergeExtend_idem)
  then show ?thesis using l2 tr by (simp add: addFile_def addConfig_def toJSON_def)
qed

end
